theory Spec2Isabelle
  imports Main "HOL-Library.Sublist"
begin

section \<open>JavaScript strings and \<open>String.prototype.replace\<close>\<close>

text \<open>
  A document is a JavaScript string, modelled as a \<^typ>\<open>string\<close>: a list of characters,
  each standing for one code unit below 256. The patch helpers of the preview widget
  are calls of \<open>String.prototype.replace\<close>, whose replacement argument is a template:
  ECMAScript's \<open>GetSubstitution\<close> expands \<open>$$\<close>, \<open>$&\<close>, the text before the match
  (dollar, backquote), the text after it (dollar, apostrophe) and the capture references
  \<open>$n\<close>, \<open>$nn\<close> in it; every other character is copied.
\<close>

definition digit_val :: "char \<Rightarrow> nat option" where
  "digit_val c = map_of (zip ''0123456789'' [0, 1, 2, 3, 4, 5, 6, 7, 8, 9]) c"

text \<open>
  \<open>capture_ref caps n\<close>: the \<open>n\<close>th capture when \<open>1 \<le> n \<le> m\<close>, where \<open>m\<close> is the number of
  captures; otherwise the reference is not replaced.
\<close>

definition capture_ref :: "string list \<Rightarrow> nat \<Rightarrow> string option" where
  "capture_ref caps n = (if 1 \<le> n \<and> n \<le> length caps then Some (caps ! (n - 1)) else None)"

text \<open>
  \<open>expand_at caps matched before after c rest\<close> reads the template at the character \<open>c\<close>,
  followed by \<open>rest\<close>: it returns the text this position contributes and how many
  characters of \<open>rest\<close> belong to the same pattern. A two-digit reference is taken when it
  names a capture, a one-digit reference otherwise.
\<close>

definition expand_at ::
  "string list \<Rightarrow> string \<Rightarrow> string \<Rightarrow> string \<Rightarrow> char \<Rightarrow> string \<Rightarrow> string \<times> nat" where
  "expand_at caps m b a c rest =
     (if c \<noteq> CHR ''$'' then ([c], 0)
      else (case rest of
              [] \<Rightarrow> ([c], 0)
            | d # r \<Rightarrow>
                if d = CHR ''$'' then ([CHR ''$''], 1)
                else if d = CHR ''&'' then (m, 1)
                else if d = CHR 0x60 then (b, 1)
                else if d = CHR 0x27 then (a, 1)
                else (case digit_val d of
                        None \<Rightarrow> ([c], 0)
                      | Some n1 \<Rightarrow>
                          (case (case r of
                                   [] \<Rightarrow> None
                                 | e # _ \<Rightarrow>
                                     (case digit_val e of
                                        None \<Rightarrow> None
                                      | Some n2 \<Rightarrow> capture_ref caps (10 * n1 + n2))) of
                             Some s \<Rightarrow> (s, 2)
                           | None \<Rightarrow>
                               (case capture_ref caps n1 of
                                  Some s \<Rightarrow> (s, 1)
                                | None \<Rightarrow> ([c], 0))))))"

fun subst_from ::
  "string list \<Rightarrow> string \<Rightarrow> string \<Rightarrow> string \<Rightarrow> nat \<Rightarrow> string \<Rightarrow> string" where
  "subst_from caps m b a k [] = []"
| "subst_from caps m b a k (c # rest) =
     (if 0 < k then subst_from caps m b a (k - 1) rest
      else (case expand_at caps m b a c rest of
              (out, skip) \<Rightarrow> out @ subst_from caps m b a skip rest))"

definition getSubstitution ::
  "string list \<Rightarrow> string \<Rightarrow> string \<Rightarrow> string \<Rightarrow> string \<Rightarrow> string" where
  "getSubstitution caps matched before after template =
     subst_from caps matched before after 0 template"

text \<open>
  \<open>split_first pat s\<close> locates the first occurrence of the string \<open>pat\<close> in \<open>s\<close> and returns
  the text before and after it.
\<close>

fun split_first :: "string \<Rightarrow> string \<Rightarrow> (string \<times> string) option" where
  "split_first pat [] = (if pat = [] then Some ([], []) else None)"
| "split_first pat (c # cs) =
     (if prefix pat (c # cs) then Some ([], drop (length pat) (c # cs))
      else map_option (\<lambda>(b, a). (c # b, a)) (split_first pat cs))"

text \<open>
  \<open>s.replace(pat, template)\<close> with a string pattern: only the first occurrence is
  replaced, there are no captures, and a string without the pattern is returned as it is.
\<close>

definition replace_str :: "string \<Rightarrow> string \<Rightarrow> string \<Rightarrow> string" where
  "replace_str s pat template =
     (case split_first pat s of
        None \<Rightarrow> s
      | Some (b, a) \<Rightarrow> b @ getSubstitution [] pat b a template @ a)"

text \<open>\<open>xs.join(sep)\<close>.\<close>

fun join :: "string \<Rightarrow> string list \<Rightarrow> string" where
  "join sep [] = []"
| "join sep [x] = x"
| "join sep (x # y # r) = x @ sep @ join sep (y # r)"

text \<open>
  The string a template literal or \<open>setAttribute\<close> makes of a value that is a string or
  \<open>null\<close> (\<open>None\<close>).
\<close>

definition js_string :: "string option \<Rightarrow> string" where
  "js_string v = (case v of None \<Rightarrow> ''null'' | Some s \<Rightarrow> s)"

section \<open>The regular expressions of the widget\<close>

subsection \<open>The body tag: \<open>/<(body[^>]*)>/\<close>\<close>

text \<open>
  A match that starts at the head of \<open>s\<close>: \<open><body\<close>, then the characters up to the next
  \<open>>\<close>. The class \<open>[^>]*\<close> is greedy and must be followed by \<open>>\<close>, so it ends at the first
  \<open>>\<close>; with no \<open>>\<close> left there is no match. The result is capture 1 and the text after the
  match.
\<close>

definition match_body_at :: "string \<Rightarrow> (string \<times> string) option" where
  "match_body_at s =
     (if prefix ''<body'' s then
        (let r = drop 5 s;
             run = takeWhile (\<lambda>c. c \<noteq> CHR ''>'') r
         in case dropWhile (\<lambda>c. c \<noteq> CHR ''>'') r of
              [] \<Rightarrow> None
            | _ # a \<Rightarrow> Some (''body'' @ run, a))
      else None)"

text \<open>The leftmost match: the text before it, capture 1, the text after it.\<close>

fun exec_body_re :: "string \<Rightarrow> (string \<times> string \<times> string) option" where
  "exec_body_re [] = None"
| "exec_body_re (c # cs) =
     (case match_body_at (c # cs) of
        Some (cap, a) \<Rightarrow> Some ([], cap, a)
      | None \<Rightarrow> map_option (\<lambda>(b, cap, a). (c # b, cap, a)) (exec_body_re cs))"

subsection \<open>\<open>metaCtaRe\<close>\<close>

text \<open>
  \<open>/<meta\s+[^>]*name=['"]?amp-cta-(type|url)['"]?[^>]*>/gi\<close>. Under the flag \<open>i\<close> an
  ASCII letter of the pattern matches itself in either case; a character outside ASCII
  never matches one.
\<close>

definition upper :: "char \<Rightarrow> char" where
  "upper c =
     (case map_of (zip ''abcdefghijklmnopqrstuvwxyz'' ''ABCDEFGHIJKLMNOPQRSTUVWXYZ'') c of
        Some u \<Rightarrow> u
      | None \<Rightarrow> c)"

fun ci_prefix :: "string \<Rightarrow> string \<Rightarrow> bool" where
  "ci_prefix [] s = True"
| "ci_prefix (p # ps) [] = False"
| "ci_prefix (p # ps) (c # cs) = (if upper p = upper c then ci_prefix ps cs else False)"

text \<open>The class \<open>\s\<close> on code units below 256: tab, LF, VT, FF, CR, space, no-break space.\<close>

definition is_space :: "char \<Rightarrow> bool" where
  "is_space c =
     (c = CHR 0x09 \<or> c = CHR 0x0A \<or> c = CHR 0x0B \<or> c = CHR 0x0C \<or> c = CHR 0x0D
      \<or> c = CHR 0x20 \<or> c = CHR 0xA0)"

text \<open>
  \<open>name=['"]?amp-cta-(type|url)\<close> at the head of \<open>t\<close>: the optional quote is taken when
  there is one (without it the next character would have to be the letter \<open>a\<close>).
\<close>

definition cta_name_here :: "string \<Rightarrow> bool" where
  "cta_name_here t =
     (ci_prefix ''name='' t \<and>
      (let u = drop 5 t;
           v = (case u of
                  [] \<Rightarrow> u
                | q # u' \<Rightarrow> if q = CHR 0x27 \<or> q = CHR 0x22 then u' else u)
       in ci_prefix ''amp-cta-type'' v \<or> ci_prefix ''amp-cta-url'' v))"

fun has_cta_name :: "string \<Rightarrow> bool" where
  "has_cta_name [] = False"
| "has_cta_name (c # cs) = (cta_name_here (c # cs) \<or> has_cta_name cs)"

text \<open>
  A match that starts at the head of \<open>s\<close>. No part of the pattern but its last character
  matches \<open>>\<close>, so a match runs from \<open><meta\<close> to the first \<open>>\<close> after it; the text between
  them starts with a white space character (\<open>\s+\<close>, the rest of the white space going to
  \<open>[^>]*\<close>) and holds the name somewhere after it. The result is the matched text and the
  text after it.
\<close>

definition match_meta_at :: "string \<Rightarrow> (string \<times> string) option" where
  "match_meta_at s =
     (if ci_prefix ''<meta'' s then
        (let r = drop 5 s;
             seg = takeWhile (\<lambda>c. c \<noteq> CHR ''>'') r
         in case dropWhile (\<lambda>c. c \<noteq> CHR ''>'') r of
              [] \<Rightarrow> None
            | g # a \<Rightarrow>
                (case seg of
                   [] \<Rightarrow> None
                 | w # t \<Rightarrow>
                     if is_space w \<and> has_cta_name t then Some (take 5 s @ seg @ [g], a)
                     else None))
      else None)"

text \<open>
  \<open>docStr.match(metaCtaRe)\<close>: with the flag \<open>g\<close>, all matches from left to right, each
  search starting where the match before it ended. JavaScript returns \<open>null\<close> where this
  list is empty.
\<close>

function match_all :: "string \<Rightarrow> string list" where
  "match_all [] = []"
| "match_all (c # cs) =
     (case match_meta_at (c # cs) of
        Some (m, rest) \<Rightarrow> m # match_all rest
      | None \<Rightarrow> match_all cs)"
  by pat_completeness auto

lemma match_meta_at_shorter:
  assumes "match_meta_at s = Some (m, rest)"
  shows "length rest < length s"
proof -
  let ?r = "drop 5 s"
  from assms obtain g where g: "dropWhile (\<lambda>c. c \<noteq> CHR ''>'') ?r = g # rest"
    by (auto simp: match_meta_at_def Let_def split: if_splits list.splits)
  have "length (dropWhile (\<lambda>c. c \<noteq> CHR ''>'') ?r) \<le> length ?r"
    by (rule length_dropWhile_le)
  with g show ?thesis by simp
qed

termination match_all
  by (relation "measure length") (auto dest: match_meta_at_shorter)

section \<open>Errors and the modules the widget imports\<close>

text \<open>
  A statement completes normally or throws; what it did to the state before it threw stays
  done, so an operation returns its completion together with the state.
\<close>

datatype error = AssertionError string | Rejected string | NoSuchFile string

datatype completion = Normal | Throw error

text \<open>
  Modelled from the spec: \<open>assert\<close> of \<open>../lib/assert\<close>, which is not among the sources.
  The spec calls it ``a best-effort assertion that required markers exist; missing markers
  raise immediately'': \<open>assert(value, message)\<close> returns a truthy \<open>value\<close> and throws an
  error carrying \<open>message\<close> otherwise. The values asserted here are strings or \<open>undefined\<close>
  (\<open>None\<close>): the empty string and \<open>undefined\<close> are falsy.
\<close>

definition assert :: "string option \<Rightarrow> string \<Rightarrow> error + string" where
  "assert v message =
     (case v of
        None \<Rightarrow> Inl (AssertionError message)
      | Some s \<Rightarrow> if s = [] then Inl (AssertionError message) else Inr s)"

text \<open>
  A DOM element, as far as the widget uses one: its attributes and its text content.
  \<open>getAttribute\<close> returns \<open>null\<close> (\<open>None\<close>) for an attribute the element does not have.
\<close>

record element =
  attributes :: "string \<rightharpoonup> string"
  textContent :: string

definition getAttribute :: "element \<Rightarrow> string \<Rightarrow> string option" where
  "getAttribute el k = attributes el k"

definition setAttribute :: "element \<Rightarrow> string \<Rightarrow> string \<Rightarrow> element" where
  "setAttribute el k v = el\<lparr>attributes := (attributes el)(k \<mapsto> v)\<rparr>"

text \<open>
  What the widget takes from modules that are not among the sources: the table
  \<open>CTA_TYPES\<close> (\<open>./cta-types\<close>; \<open>CTA_TYPES D k\<close> is the value of \<open>CTA_TYPES[k]\<close>, \<open>None\<close> for
  \<open>undefined\<close>), the strings \<open>cssPatch\<close> and \<open>navigationPatch\<close> (\<open>./story-patch\<close>), the
  string \<open>httpsCircumventionPatch\<close> (what \<open>minifyInlineJs\<close> of \<open>./utils/minify-inline-js\<close>
  makes of the inline script), and the browser's HTML parser: \<open>parseMetas D s\<close> is the list
  \<open>parser.querySelectorAll('meta')\<close> after \<open>parser.innerHTML = s\<close>.
\<close>

record deps =
  CTA_TYPES :: "string \<rightharpoonup> string"
  cssPatch :: string
  navigationPatch :: string
  httpsCircumventionPatch :: string
  parseMetas :: "string \<Rightarrow> element list"

section \<open>The preview widget\<close>

text \<open>
  The definitions of this section follow \<open>src/unnamed/part_001\<close>, the module of the class
  \<open>AmpStoryAdPreview\<close>, and keep its names.
\<close>

subsection \<open>Constants and document patches\<close>

text \<open>
  \<open>patchOuter\<close> is always called with its page id, so the default of that parameter is
  not modelled.
\<close>

definition defaultCtaType :: string where
  "defaultCtaType = ''LEARN_MORE''"

definition defaultCtaUrl :: string where
  "defaultCtaUrl = ''https://amp.dev''"

definition defaultIframeSandbox :: string where
  "defaultIframeSandbox =
     join '' ''
       [''allow-scripts'',
        ''allow-forms'',
        ''allow-same-origin'',
        ''allow-popups'',
        ''allow-popups-to-escape-sandbox'',
        ''allow-top-navigation'']"

definition setBodyAmpStoryVisible :: "string \<Rightarrow> string" where
  "setBodyAmpStoryVisible docStr =
     (case exec_body_re docStr of
        None \<Rightarrow> docStr
      | Some (b, cap, a) \<Rightarrow>
          b @ getSubstitution [cap] (''<'' @ cap @ ''>'') b a ''<$1 amp-story-visible>'' @ a)"

definition addScriptToHead :: "string \<Rightarrow> string \<Rightarrow> string" where
  "addScriptToHead docStr headContent = replace_str docStr ''<head>'' (''<head>'' @ headContent)"

definition insertHttpsCircumventionPatch :: "deps \<Rightarrow> string \<Rightarrow> string" where
  "insertHttpsCircumventionPatch D docStr = addScriptToHead docStr (httpsCircumventionPatch D)"

definition storyNavigationPatch :: "deps \<Rightarrow> string \<Rightarrow> string \<Rightarrow> string" where
  "storyNavigationPatch D docStr pageId =
     addScriptToHead docStr (replace_str (navigationPatch D) ''$pageId$'' pageId)"

definition storyCssPatch :: "deps \<Rightarrow> string \<Rightarrow> string" where
  "storyCssPatch D docStr = addScriptToHead docStr (cssPatch D)"

definition patch :: "deps \<Rightarrow> string \<Rightarrow> string" where
  "patch D docStr = setBodyAmpStoryVisible (insertHttpsCircumventionPatch D docStr)"

definition patchOuter :: "deps \<Rightarrow> string \<Rightarrow> string \<Rightarrow> string" where
  "patchOuter D str pageId = storyNavigationPatch D (storyCssPatch D str) pageId"

subsection \<open>\<open>getDataTemplate\<close>\<close>

text \<open>
  The host element: \<open>dataset.template\<close> (\<open>None\<close> when the attribute \<open>data-template\<close> is not
  there) and the string the element converts to in the assertion's message.
\<close>

record host_element =
  data_template :: "string option"
  element_string :: string

definition getDataTemplate :: "host_element \<Rightarrow> (error + string) \<times> host_element" where
  "getDataTemplate el =
     (let template = data_template el;
          el' = el\<lparr>data_template := None\<rparr>
      in (assert template (''Expected [data-template] on '' @ element_string el), el'))"

subsection \<open>\<open>setMetaCtaLink\<close>\<close>

text \<open>
  One round of the loop over the parsed meta elements; \<open>ctaType\<close> and \<open>ctaUrl\<close> are the
  variables \<open>type\<close> and \<open>url\<close>, each a string or \<open>null\<close>.
\<close>

definition meta_step ::
  "string option \<times> string option \<Rightarrow> element \<Rightarrow> string option \<times> string option" where
  "meta_step tu meta =
     (case tu of
        (ctaType, ctaUrl) \<Rightarrow>
          (let nm = getAttribute meta ''name'';
               content = getAttribute meta ''content'';
               ctaType' = (if nm = Some ''amp-cta-type'' then content else ctaType);
               ctaUrl' = (if nm = Some ''amp-cta-url'' then content else ctaUrl)
           in (ctaType', ctaUrl')))"

text \<open>
  The first part of \<open>setMetaCtaLink\<close>, up to the end of its \<open>if\<close>: the values of \<open>type\<close>
  and \<open>url\<close> when the link is about to be updated.
\<close>

definition resolveCta :: "deps \<Rightarrow> string \<Rightarrow> string option \<times> string option" where
  "resolveCta D docStr =
     (let matches = match_all docStr
      in if matches \<noteq> [] then
           foldl meta_step (Some defaultCtaType, Some defaultCtaUrl)
             (parseMetas D (join [CHR 0x0A] matches))
         else (Some defaultCtaType, Some defaultCtaUrl))"

definition setMetaCtaLink :: "deps \<Rightarrow> string \<Rightarrow> element \<Rightarrow> completion \<times> element" where
  "setMetaCtaLink D docStr ctaLink =
     (case resolveCta D docStr of
        (ctaType, ctaUrl) \<Rightarrow>
          (let link1 = setAttribute ctaLink ''href'' (js_string ctaUrl)
           in case assert (CTA_TYPES D (js_string ctaType))
                     (''Unknown CTA type '' @ js_string ctaType) of
                Inl e \<Rightarrow> (Throw e, link1)
              | Inr label \<Rightarrow> (Normal, link1\<lparr>textContent := label\<rparr>)))"

subsection \<open>Asynchronous functions\<close>

text \<open>
  The widget is single-threaded: an \<open>async\<close> function runs until it awaits, and goes on
  when the promise it awaits has resolved. The body of such a function is the list of its
  steps in program order, a step being either a suspension (\<open>await\<close>, or the start of a
  \<open>then\<close> callback) or the synchronous code between two suspensions, which acts on the
  state of the widget.
\<close>

text \<open>
  Modelled from the spec: \<open>untilAttached\<close>, \<open>whenIframeLoaded\<close> and \<open>writeToIframe\<close> of
  \<open>./utils\<close> are not among the sources. Following the spec (``the outer document must
  finish loading before the nested ad iframe is located'', ``writes to nested iframe
  documents as its only externally observable effect''), \<open>whenIframeLoaded\<close> is a promise
  that resolves when the iframe has loaded, \<open>untilAttached\<close> one that resolves when the
  iframe is attached, and \<open>writeToIframe\<close> an effect, recorded as an event.
\<close>

datatype promise =
    UntilAttached
  | WhenIframeLoaded
  | StoryIframe
  | AwaitSelect
  | StoryCtaLink
  | AdIframe

datatype event =
    Render
  | Resumed promise
  | WriteStory string
  | Select string
  | MetaCtaLink string completion element
  | WriteAd string

text \<open>
  The state: the field \<open>storyDoc\<close>, the element the promise \<open>storyCtaLink_\<close> resolves to,
  and the events so far, the latest last.
\<close>

record widget =
  storyDoc :: string
  ctaLink :: element
  events :: "event list"

datatype instr = Await promise | Act "widget \<Rightarrow> completion \<times> widget"

definition emit :: "event \<Rightarrow> widget \<Rightarrow> widget" where
  "emit e w = w\<lparr>events := events w @ [e]\<rparr>"

text \<open>
  \<open>run_task\<close> runs a body to its end, every promise it awaits resolving in turn and no
  other task running in between; a throw rejects the function's promise and ends it.
\<close>

fun run_task :: "instr list \<Rightarrow> widget \<Rightarrow> completion \<times> widget" where
  "run_task [] w = (Normal, w)"
| "run_task (Await p # k) w = run_task k (emit (Resumed p) w)"
| "run_task (Act f # k) w =
     (case f w of
        (Normal, w') \<Rightarrow> run_task k w'
      | (Throw e, w') \<Rightarrow> (Throw e, w'))"

text \<open>
  \<open>sync_prefix\<close> is what a call of an \<open>async\<close> function does before it returns its promise
  to the caller: it runs up to the first \<open>await\<close>. The result holds the steps that are
  left, starting with that \<open>await\<close>.
\<close>

fun sync_prefix :: "instr list \<Rightarrow> widget \<Rightarrow> completion \<times> widget \<times> instr list" where
  "sync_prefix [] w = (Normal, w, [])"
| "sync_prefix (Await p # k) w = (Normal, w, Await p # k)"
| "sync_prefix (Act f # k) w =
     (case f w of
        (Normal, w') \<Rightarrow> sync_prefix k w'
      | (Throw e, w') \<Rightarrow> (Throw e, w', []))"

text \<open>
  A function whose last statement calls another \<open>async\<close> function without awaiting it is
  the pair of its own steps and the body of the function it calls. \<open>run_with_call\<close> runs it
  until its own promise settles: the result is how that promise settles, the state at that
  moment, and the bodies that are still suspended then. A throw in the called function
  rejects the called function's promise, not the caller's.
\<close>

definition run_with_call ::
  "instr list \<times> instr list \<Rightarrow> widget \<Rightarrow> completion \<times> widget \<times> instr list list" where
  "run_with_call f w =
     (case f of
        (own, called) \<Rightarrow>
          (case run_task own w of
             (Throw e, w') \<Rightarrow> (Throw e, w', [])
           | (Normal, w') \<Rightarrow>
               (case sync_prefix called w' of
                  (c, w'', rest) \<Rightarrow> (Normal, w'', (case rest of [] \<Rightarrow> [] | _ # _ \<Rightarrow> [rest])))))"

subsection \<open>The steps of the source\<close>

definition writeStory :: "(string \<Rightarrow> string) \<Rightarrow> widget \<Rightarrow> completion \<times> widget" where
  "writeStory f w = (Normal, emit (WriteStory (f (storyDoc w))) w)"

definition querySelector :: "string \<Rightarrow> widget \<Rightarrow> completion \<times> widget" where
  "querySelector selector w = (Normal, emit (Select selector) w)"

definition applyMetaCtaLink :: "deps \<Rightarrow> string \<Rightarrow> widget \<Rightarrow> completion \<times> widget" where
  "applyMetaCtaLink D docStr w =
     (case setMetaCtaLink D docStr (ctaLink w) of
        (c, link') \<Rightarrow> (c, emit (MetaCtaLink docStr c link') (w\<lparr>ctaLink := link'\<rparr>)))"

definition writeAd :: "string \<Rightarrow> widget \<Rightarrow> completion \<times> widget" where
  "writeAd doc w = (Normal, emit (WriteAd doc) w)"

definition setStoryDoc :: "string \<Rightarrow> widget \<Rightarrow> completion \<times> widget" where
  "setStoryDoc dirty w = (Normal, w\<lparr>storyDoc := dirty\<rparr>)"

text \<open>
  \<open>awaitSelect(this.storyIframe_, selector)\<close> awaited: the callback runs when
  \<open>storyIframe_\<close> has resolved, and the caller goes on when the callback's promise has.
\<close>

definition awaitSelect :: "string \<Rightarrow> instr list" where
  "awaitSelect selector = [Await StoryIframe, Act (querySelector selector), Await AwaitSelect]"

text \<open>
  The constructor. It throws when the template is missing or empty; otherwise it returns
  the new widget (\<open>render\<close> is its last statement) and the promise chain it has started:
  \<open>storyIframe_\<close> (\<open>untilAttached\<close>, \<open>whenIframeLoaded\<close>, the write of the patched story
  document, \<open>whenIframeLoaded\<close>) followed by the two callbacks registered on it,
  \<open>adIframe_\<close> and \<open>storyCtaLink_\<close>. Either way the host element has lost its
  \<open>data-template\<close>. \<open>link\<close> is the element \<open>.i-amphtml-story-ad-link\<close> of the story
  document.
\<close>

definition AmpStoryAdPreview ::
  "deps \<Rightarrow> host_element \<Rightarrow> element \<Rightarrow> (error + widget \<times> instr list) \<times> host_element" where
  "AmpStoryAdPreview D el link =
     (case getDataTemplate el of
        (Inl e, el') \<Rightarrow> (Inl e, el')
      | (Inr template, el') \<Rightarrow>
          (Inr (\<lparr>storyDoc = replace_str template ''{{ adSandbox }}'' defaultIframeSandbox,
                 ctaLink = link,
                 events = [Render]\<rparr>,
                [Await UntilAttached,
                 Await WhenIframeLoaded,
                 Act (writeStory (\<lambda>doc. patchOuter D doc ''page-1'')),
                 Await WhenIframeLoaded,
                 Await StoryIframe,
                 Act (querySelector ''iframe''),
                 Act (querySelector ''.i-amphtml-story-ad-link'')]),
           el'))"

definition updateInner :: "deps \<Rightarrow> string \<Rightarrow> bool \<Rightarrow> instr list" where
  "updateInner D dirty switchingContext =
     (if switchingContext then
        [Await StoryIframe,
         Act (writeStory (\<lambda>doc. patchOuter D doc ''page-1'')),
         Await StoryIframe,
         Await WhenIframeLoaded]
      else
        [Await StoryIframe,
         Act (writeStory (storyCssPatch D)),
         Await StoryIframe,
         Await WhenIframeLoaded])
     @ awaitSelect ''iframe''
     @ [Await StoryCtaLink,
        Act (applyMetaCtaLink D dirty),
        Await AdIframe,
        Act (writeAd (patch D dirty))]"

definition updateOuter :: "deps \<Rightarrow> string \<Rightarrow> string \<Rightarrow> bool \<Rightarrow> instr list \<times> instr list" where
  "updateOuter D dirty dirtyInner switchingContext =
     ([Act (setStoryDoc dirty)]
      @ (if switchingContext then
           [Await StoryIframe,
            Act (writeStory (\<lambda>_. patchOuter D dirty ''cover'')),
            Await StoryIframe,
            Await WhenIframeLoaded]
         else [])
      @ awaitSelect ''iframe'',
      updateInner D dirtyInner False)"

subsection \<open>A widget in use\<close>




text \<open>
  Two monitors over the events of a run. \<open>loaded_before_select l es\<close>: every
  \<open>querySelector\<close> in \<open>es\<close> comes when the story iframe has loaded since the last write to
  it (\<open>l\<close> tells whether that holds at the start). \<open>cta_before_ad D a es\<close>: every write to
  the ad iframe in \<open>es\<close> comes after \<open>setMetaCtaLink\<close> has completed on some document since
  the write before it, and what is written is the patch of that document (\<open>a\<close> is the
  document at the start, if there is one).
\<close>

fun loaded_before_select :: "bool \<Rightarrow> event list \<Rightarrow> bool" where
  "loaded_before_select l [] = True"
| "loaded_before_select l (WriteStory d # es) = loaded_before_select False es"
| "loaded_before_select l (Resumed WhenIframeLoaded # es) = loaded_before_select True es"
| "loaded_before_select l (Select s # es) = (l \<and> loaded_before_select l es)"
| "loaded_before_select l (e # es) = loaded_before_select l es"

fun cta_before_ad :: "deps \<Rightarrow> string option \<Rightarrow> event list \<Rightarrow> bool" where
  "cta_before_ad D a [] = True"
| "cta_before_ad D a (MetaCtaLink docStr Normal link # es) = cta_before_ad D (Some docStr) es"
| "cta_before_ad D a (WriteAd d # es) =
     (case a of
        None \<Rightarrow> False
      | Some docStr \<Rightarrow> d = patch D docStr \<and> cta_before_ad D None es)"
| "cta_before_ad D a (e # es) = cta_before_ad D a es"

section \<open>The build script\<close>

text \<open>
  The definitions of this section follow \<open>src/bin/build.js\<close>.
  \<open>rollup\<close>, the bundle's \<open>write\<close>, terser's \<open>minify\<close> and the file system are libraries:
  they are parameters of the model. \<open>rollup T config\<close> is the bundle the promise
  \<open>rollup(config)\<close> resolves to, or its rejection; \<open>bundle_write T b out\<close> is the code
  \<open>b.write(out)\<close> writes to the file \<open>out.file\<close>, or its rejection; \<open>minify T code config\<close>
  is \<open>minify(code, config).code\<close> as \<open>fs.outputFile\<close> takes it, or the error of the two.
\<close>

record input_options =
  input :: string
  plugins :: "string list"

record output_options =
  "file" :: string
  format :: string
  name :: string

record minify_options =
  mangle_toplevel :: bool

record 'b tools =
  rollup :: "input_options \<Rightarrow> error + 'b"
  bundle_write :: "'b \<Rightarrow> output_options \<Rightarrow> error + string"
  minify :: "string \<Rightarrow> minify_options \<Rightarrow> error + string"

definition inputConfig :: input_options where
  "inputConfig =
     \<lparr>input = ''src/bundles/app.js'',
      plugins = [''postcss'', ''nodeResolve'', ''commonjs'', ''babel'']\<rparr>"

definition outputBundles :: "output_options list" where
  "outputBundles =
     [\<lparr>file = ''dist/app.js'', format = ''iife'', name = ''ampStoryAdPreview''\<rparr>]"

definition minifyConfig :: minify_options where
  "minifyConfig = \<lparr>mangle_toplevel = True\<rparr>"

text \<open>The files on disk, and what the script has done so far, the latest last.\<close>

datatype build_event =
    Step string
  | RollupCall input_options
  | BundleWrite output_options
  | ReadFile string
  | OutputFile string string

record build_state =
  files :: "string \<rightharpoonup> string"
  trace :: "build_event list"

definition logged :: "build_event \<Rightarrow> build_state \<Rightarrow> build_state" where
  "logged e st = st\<lparr>trace := trace st @ [e]\<rparr>"

text \<open>
  Modelled from the spec: \<open>step\<close> of \<open>../lib/log\<close> is not among the sources. The spec has
  the build ``strictly sequential'' with ``a single bundling attempt'': \<open>step(label, fn)\<close>
  announces the label and runs \<open>fn\<close> once, settling as \<open>fn\<close> does. (The labels are written
  without their emoji.)
\<close>

definition step ::
  "string \<Rightarrow> (build_state \<Rightarrow> completion \<times> build_state) \<Rightarrow> build_state \<Rightarrow> completion \<times> build_state" where
  "step label fn st = fn (logged (Step label) st)"

text \<open>
  \<open>Promise.all(xs.map(cb))\<close>: \<open>map\<close> calls \<open>cb\<close> on every entry, in order, whether or not
  an earlier call ends in a rejection; the result is rejected with the first rejection.
\<close>

fun promise_all_map ::
  "('x \<Rightarrow> 's \<Rightarrow> completion \<times> 's) \<Rightarrow> 'x list \<Rightarrow> 's \<Rightarrow> completion \<times> 's" where
  "promise_all_map cb [] st = (Normal, st)"
| "promise_all_map cb (x # xs) st =
     (case cb x st of
        (c, st') \<Rightarrow>
          (case promise_all_map cb xs st' of
             (c', st'') \<Rightarrow> ((case c of Normal \<Rightarrow> c' | Throw e \<Rightarrow> Throw e), st'')))"

definition withAllBundles ::
  "(output_options \<Rightarrow> build_state \<Rightarrow> completion \<times> build_state) \<Rightarrow> build_state \<Rightarrow> completion \<times> build_state" where
  "withAllBundles cb = promise_all_map cb outputBundles"

definition minifyBundle :: "'b tools \<Rightarrow> output_options \<Rightarrow> build_state \<Rightarrow> completion \<times> build_state" where
  "minifyBundle T out st =
     (let st1 = logged (ReadFile (file out)) st
      in case files st1 (file out) of
           None \<Rightarrow> (Throw (NoSuchFile (file out)), st1)
         | Some code \<Rightarrow>
             (case minify T code minifyConfig of
                Inl e \<Rightarrow> (Throw e, st1)
              | Inr small \<Rightarrow>
                  (Normal,
                   logged (OutputFile (file out) small)
                     (st1\<lparr>files := (files st1)(file out \<mapsto> small)\<rparr>))))"

text \<open>\<open>mainBundle.write(outputBundle)\<close>.\<close>

definition write_bundle ::
  "'b tools \<Rightarrow> 'b \<Rightarrow> output_options \<Rightarrow> build_state \<Rightarrow> completion \<times> build_state" where
  "write_bundle T b out st =
     (let st1 = logged (BundleWrite out) st
      in case bundle_write T b out of
           Inl e \<Rightarrow> (Throw e, st1)
         | Inr code \<Rightarrow> (Normal, st1\<lparr>files := (files st1)(file out \<mapsto> code)\<rparr>))"

definition build :: "'b tools \<Rightarrow> build_state \<Rightarrow> completion \<times> build_state" where
  "build T =
     step ''Building''
       (\<lambda>st. let st1 = logged (RollupCall inputConfig) st
             in case rollup T inputConfig of
                  Inl e \<Rightarrow> (Throw e, st1)
                | Inr mainBundle \<Rightarrow> withAllBundles (write_bundle T mainBundle) st1)"

text \<open>
  \<open>process.env\<close> maps a variable to its string; \<open>!process.env.PROD\<close> holds when the
  variable is not there or is the empty string.
\<close>

definition truthy :: "string option \<Rightarrow> bool" where
  "truthy v = (case v of None \<Rightarrow> False | Some s \<Rightarrow> s \<noteq> [])"

text \<open>\<open>main\<close>, run on the files \<open>fs\<close>.\<close>

definition main :: "'b tools \<Rightarrow> (string \<rightharpoonup> string) \<Rightarrow> (string \<rightharpoonup> string) \<Rightarrow> completion \<times> build_state" where
  "main T env fs =
     (case build T \<lparr>files = fs, trace = []\<rparr> of
        (Throw e, st) \<Rightarrow> (Throw e, st)
      | (Normal, st) \<Rightarrow>
          if \<not> truthy (env ''PROD'') then (Normal, st)
          else step ''Minifying'' (withAllBundles (minifyBundle T)) st)"

section \<open>Notions used to state the properties\<close>

text \<open>
  A replacement template is plain when no dollar sign in it is followed by a dollar sign,
  an ampersand, a backquote or an apostrophe: those are the patterns \<open>GetSubstitution\<close>
  expands when there is no capture.
\<close>

fun plain_template :: "string \<Rightarrow> bool" where
  "plain_template (c # d # r) =
     (\<not> (c = CHR ''$'' \<and> (d = CHR ''$'' \<or> d = CHR ''&'' \<or> d = CHR 0x60 \<or> d = CHR 0x27))
      \<and> plain_template (d # r))"
| "plain_template t = True"

text \<open>
  A document has a body tag when \<open><body\<close> is followed, somewhere, by \<open>>\<close>
  (\<open>has_body_tag_iff\<close> below).
\<close>

fun has_body_tag :: "string \<Rightarrow> bool" where
  "has_body_tag [] = False"
| "has_body_tag (c # cs) =
     ((prefix ''<body'' (c # cs) \<and> CHR ''>'' \<in> set (drop 5 (c # cs))) \<or> has_body_tag cs)"

text \<open>
  The \<open>content\<close> attribute (\<open>None\<close> for \<open>null\<close>) of the last element of \<open>metas\<close> whose
  \<open>name\<close> attribute is \<open>nm\<close>; \<open>None\<close> when there is no such element.
\<close>

definition last_content :: "string \<Rightarrow> element list \<Rightarrow> string option option" where
  "last_content nm metas =
     (case filter (\<lambda>m. getAttribute m ''name'' = Some nm) metas of
        [] \<Rightarrow> None
      | ms \<Rightarrow> Some (getAttribute (last ms) ''content''))"

text \<open>
  What the two monitors hold after a list of events: whether the story iframe has loaded
  since the last write to it, and the document on which \<open>setMetaCtaLink\<close> has completed
  since the last write to the ad iframe, if there is one.
\<close>

fun story_loaded :: "bool \<Rightarrow> event list \<Rightarrow> bool" where
  "story_loaded l [] = l"
| "story_loaded l (WriteStory d # es) = story_loaded False es"
| "story_loaded l (Resumed WhenIframeLoaded # es) = story_loaded True es"
| "story_loaded l (e # es) = story_loaded l es"

fun cta_applied :: "string option \<Rightarrow> event list \<Rightarrow> string option" where
  "cta_applied a [] = a"
| "cta_applied a (MetaCtaLink docStr Normal link # es) = cta_applied (Some docStr) es"
| "cta_applied a (WriteAd d # es) = cta_applied None es"
| "cta_applied a (e # es) = cta_applied a es"



section \<open>Sample inputs\<close>

text \<open>Concrete inputs at which the theorems below are instantiated.\<close>

definition sample_meta :: element where
  "sample_meta =
     \<lparr>attributes = [''name'' \<mapsto> ''amp-cta-type'', ''content'' \<mapsto> ''SHOP''],
      textContent = []\<rparr>"

definition sample_deps :: deps where
  "sample_deps =
     \<lparr>CTA_TYPES = [''LEARN_MORE'' \<mapsto> ''Learn More'', ''SHOP'' \<mapsto> ''Shop Now''],
      cssPatch = ''<style></style>'',
      navigationPatch = ''<script>$pageId$</script>'',
      httpsCircumventionPatch = ''<script></script>'',
      parseMetas = (\<lambda>s. [sample_meta])\<rparr>"

definition sample_link :: element where
  "sample_link = \<lparr>attributes = Map.empty, textContent = []\<rparr>"

definition sample_widget :: widget where
  "sample_widget = \<lparr>storyDoc = ''<head></head>'', ctaLink = sample_link, events = []\<rparr>"

definition sample_host :: host_element where
  "sample_host =
     \<lparr>data_template = Some ''<x a={{ adSandbox }}>'',
      element_string = ''[object HTMLDivElement]''\<rparr>"

definition sample_tools :: "nat tools" where
  "sample_tools =
     \<lparr>rollup = (\<lambda>config. Inr 0),
      bundle_write = (\<lambda>b out. Inr ''var a = 1;''),
      minify = (\<lambda>code config. Inr ''a=1'')\<rparr>"

section \<open>Strings: first occurrences and plain templates\<close>

lemma split_first_sound: "split_first pat s = Some (b, a) \<Longrightarrow> s = b @ pat @ a"
proof (induction s arbitrary: b)
  case Nil
  then show ?case by (simp split: if_splits)
next
  case (Cons c cs)
  show ?case
  proof (cases "prefix pat (c # cs)")
    case True
    with Cons.prems have "b = []" "a = drop (length pat) (c # cs)" by simp_all
    moreover from True have "c # cs = pat @ drop (length pat) (c # cs)"
      by (metis append_eq_conv_conj prefixE)
    ultimately show ?thesis by simp
  next
    case False
    with Cons.prems obtain b' where "split_first pat cs = Some (b', a)" "b = c # b'"
      by auto
    with Cons.IH show ?thesis by simp
  qed
qed

lemma split_first_None: "split_first pat s = None \<longleftrightarrow> \<not> sublist pat s"
  by (induction s) (auto simp: sublist_Cons_right)

lemma split_first_is_first:
  assumes "pat \<noteq> []" and "split_first pat s = Some (b, a)"
  shows "\<not> sublist pat (b @ butlast pat)"
  using assms(2)
proof (induction s arbitrary: b)
  case Nil
  with assms(1) show ?case by simp
next
  case (Cons c cs)
  show ?case
  proof (cases "prefix pat (c # cs)")
    case True
    with Cons.prems have "b = []" by simp
    moreover have "\<not> sublist pat (butlast pat)"
    proof
      assume "sublist pat (butlast pat)"
      then have "length pat \<le> length (butlast pat)" by (rule sublist_length_le)
      then have "length pat \<le> length pat - 1" by (simp only: length_butlast)
      moreover have "0 < length pat" using assms(1) by simp
      ultimately show False by arith
    qed
    ultimately show ?thesis by simp
  next
    case False
    with Cons.prems obtain b' where s: "split_first pat cs = Some (b', a)" and b: "b = c # b'"
      by auto
    from Cons.IH[OF s] have ih: "\<not> sublist pat (b' @ butlast pat)" .
    from split_first_sound[OF s] have cs: "cs = b' @ pat @ a" .
    have "\<not> prefix pat (c # b' @ butlast pat)"
    proof
      assume p: "prefix pat (c # b' @ butlast pat)"
      have "pat @ a = (butlast pat @ [last pat]) @ a"
        by (simp only: append_butlast_last_id[OF assms(1)])
      then have e: "c # cs = (c # b' @ butlast pat) @ (last pat # a)"
        by (simp add: cs)
      from p have "prefix pat (c # cs)" unfolding e by (rule prefix_prefix)
      with False show False ..
    qed
    with ih show ?thesis unfolding b by (simp add: sublist_Cons_right)
  qed
qed

lemma replace_str_absent: "\<not> sublist pat s \<Longrightarrow> replace_str s pat t = s"
  by (simp add: replace_str_def split_first_None[symmetric])

lemma replace_str_present:
  assumes "pat \<noteq> []" and "sublist pat s"
  shows "\<exists>pre post. s = pre @ pat @ post \<and> \<not> sublist pat (pre @ butlast pat)
           \<and> replace_str s pat t = pre @ getSubstitution [] pat pre post t @ post"
proof -
  from assms(2) have "split_first pat s \<noteq> None" by (simp add: split_first_None)
  then obtain b a where s: "split_first pat s = Some (b, a)" by auto
  from split_first_sound[OF s] split_first_is_first[OF assms(1) s] s
  show ?thesis by (auto simp: replace_str_def)
qed

lemma capture_ref_Nil: "capture_ref [] n = None"
  by (simp add: capture_ref_def)

lemma expand_at_plain:
  "\<not> (c = CHR ''$'' \<and> (\<exists>d r. rest = d # r \<and> (d = CHR ''$'' \<or> d = CHR ''&'' \<or> d = CHR 0x60 \<or> d = CHR 0x27)))
   \<Longrightarrow> expand_at [] m b a c rest = ([c], 0)"
  by (auto simp: expand_at_def capture_ref_Nil split: list.splits option.splits)

lemma subst_from_plain: "plain_template t \<Longrightarrow> subst_from [] m b a 0 t = t"
  by (induction t rule: plain_template.induct) (auto simp: expand_at_plain)

lemma getSubstitution_plain: "plain_template t \<Longrightarrow> getSubstitution [] m b a t = t"
  by (simp add: getSubstitution_def subst_from_plain)

lemma plain_template_Cons: "c \<noteq> CHR ''$'' \<Longrightarrow> plain_template (c # t) = plain_template t"
  by (cases t) auto

lemma getSubstitution_body:
  "getSubstitution [cap] m b a ''<$1 amp-story-visible>'' = ''<'' @ cap @ '' amp-story-visible>''"
  by (simp add: getSubstitution_def expand_at_def digit_val_def capture_ref_def)

lemma plain_sandbox: "plain_template defaultIframeSandbox"
  by (simp add: defaultIframeSandbox_def)

lemma sandbox_string:
  "defaultIframeSandbox = ''allow-scripts allow-forms allow-same-origin allow-popups allow-popups-to-escape-sandbox allow-top-navigation''"
  by (simp add: defaultIframeSandbox_def)

section \<open>The body tag\<close>

lemma dropWhile_eq_Cons:
  assumes "dropWhile P r = g # a"
  shows "r = takeWhile P r @ g # a" and "\<not> P g"
proof -
  show "r = takeWhile P r @ g # a"
    by (metis assms takeWhile_dropWhile_id)
  from assms have "dropWhile P r \<noteq> []" by simp
  then have "\<not> P (hd (dropWhile P r))" by (rule hd_dropWhile)
  with assms show "\<not> P g" by simp
qed

lemma match_body_at_sound:
  assumes "match_body_at s = Some (cap, a)"
  shows "\<exists>attrs. cap = ''body'' @ attrs \<and> CHR ''>'' \<notin> set attrs \<and> s = ''<body'' @ attrs @ ''>'' @ a"
proof -
  let ?P = "\<lambda>c. c \<noteq> CHR ''>''"
  from assms have pre: "prefix ''<body'' s"
    by (auto simp: match_body_at_def split: if_splits)
  then obtain r where r: "s = ''<body'' @ r" by (auto elim: prefixE)
  from assms r obtain g where g: "dropWhile ?P r = g # a" and cap: "cap = ''body'' @ takeWhile ?P r"
    by (auto simp: match_body_at_def Let_def split: if_splits list.splits)
  from dropWhile_eq_Cons[OF g] have "r = takeWhile ?P r @ g # a" "g = CHR ''>''" by auto
  then have "r = takeWhile ?P r @ ''>'' @ a" by simp
  moreover have "CHR ''>'' \<notin> set (takeWhile ?P r)"
    by (auto dest: set_takeWhileD)
  ultimately show ?thesis using cap r by metis
qed

lemma match_body_at_some:
  "match_body_at (''<body'' @ attrs @ ''>'' @ post) \<noteq> None"
proof -
  let ?P = "\<lambda>c. c \<noteq> CHR ''>''"
  have "dropWhile ?P (attrs @ CHR ''>'' # post) \<noteq> []"
    by (simp add: dropWhile_eq_Nil_conv)
  then show ?thesis
    by (auto simp: match_body_at_def Let_def split: list.splits)
qed

lemma exec_body_re_sound:
  "exec_body_re s = Some (b, cap, a) \<Longrightarrow>
     \<exists>attrs. cap = ''body'' @ attrs \<and> CHR ''>'' \<notin> set attrs \<and> s = b @ ''<body'' @ attrs @ ''>'' @ a"
proof (induction s arbitrary: b)
  case Nil
  then show ?case by simp
next
  case (Cons c cs)
  show ?case
  proof (cases "match_body_at (c # cs)")
    case None
    with Cons.prems obtain b' where "exec_body_re cs = Some (b', cap, a)" "b = c # b'"
      by auto
    with Cons.IH show ?thesis by auto
  next
    case (Some ca)
    with Cons.prems have ca: "ca = (cap, a)" "b = []" by (auto split: prod.splits)
    with Some match_body_at_sound[of "c # cs" cap a] show ?thesis by auto
  qed
qed

lemma exec_body_re_tag: "exec_body_re (pre @ ''<body'' @ attrs @ ''>'' @ post) \<noteq> None"
proof (induction pre)
  case Nil
  have "match_body_at (''<body'' @ attrs @ ''>'' @ post) \<noteq> None" by (rule match_body_at_some)
  then show ?case by auto
next
  case (Cons x pre)
  then show ?case by (auto split: option.splits)
qed

lemma dropWhile_neq_Nil_iff: "dropWhile (\<lambda>c. c \<noteq> x) r = [] \<longleftrightarrow> x \<notin> set r"
  by (auto simp: dropWhile_eq_Nil_conv)

lemma match_body_at_None_iff:
  "match_body_at s = None \<longleftrightarrow> \<not> (prefix ''<body'' s \<and> CHR ''>'' \<in> set (drop 5 s))"
proof (cases "dropWhile (\<lambda>c. c \<noteq> CHR ''>'') (drop 5 s)")
  case Nil
  have "match_body_at s = None"
    unfolding match_body_at_def Let_def Nil by simp
  moreover from Nil have "CHR ''>'' \<notin> set (drop 5 s)"
    by (rule dropWhile_neq_Nil_iff[THEN iffD1])
  ultimately show ?thesis by simp
next
  case (Cons g a)
  have "match_body_at s = None \<longleftrightarrow> \<not> prefix ''<body'' s"
    unfolding match_body_at_def Let_def Cons by simp
  moreover have "CHR ''>'' \<in> set (drop 5 s)"
  proof (rule ccontr)
    assume "CHR ''>'' \<notin> set (drop 5 s)"
    then have "dropWhile (\<lambda>c. c \<noteq> CHR ''>'') (drop 5 s) = []"
      by (rule dropWhile_neq_Nil_iff[THEN iffD2])
    with Cons show False by (simp only: list.distinct)
  qed
  ultimately show ?thesis by simp
qed

lemma exec_body_re_None: "exec_body_re s = None \<longleftrightarrow> \<not> has_body_tag s"
proof (induction s)
  case Nil
  then show ?case by simp
next
  case (Cons c cs)
  show ?case
  proof (cases "match_body_at (c # cs)")
    case None
    with Cons match_body_at_None_iff[of "c # cs"] show ?thesis by simp
  next
    case (Some ca)
    then have "match_body_at (c # cs) \<noteq> None" by simp
    then have "prefix ''<body'' (c # cs) \<and> CHR ''>'' \<in> set (drop 5 (c # cs))"
      unfolding match_body_at_None_iff by simp
    with Some show ?thesis by (simp split: prod.splits)
  qed
qed

lemma has_body_tag_iff:
  "has_body_tag s \<longleftrightarrow> (\<exists>pre attrs post. s = pre @ ''<body'' @ attrs @ ''>'' @ post)"
proof
  assume "has_body_tag s"
  then have "exec_body_re s \<noteq> None" by (simp add: exec_body_re_None)
  then obtain b cap a where "exec_body_re s = Some (b, cap, a)" by auto
  from exec_body_re_sound[OF this] show "\<exists>pre attrs post. s = pre @ ''<body'' @ attrs @ ''>'' @ post"
    by blast
next
  assume "\<exists>pre attrs post. s = pre @ ''<body'' @ attrs @ ''>'' @ post"
  then have "exec_body_re s \<noteq> None" using exec_body_re_tag by blast
  then show "has_body_tag s" by (simp add: exec_body_re_None)
qed

lemma match_body_at_prefix_gt:
  "prefix ''<body'' s \<Longrightarrow> CHR ''>'' \<in> set (drop 5 s) \<Longrightarrow> match_body_at s \<noteq> None"
  by (auto simp: match_body_at_def Let_def dropWhile_eq_Nil_conv split: list.splits)

lemma exec_body_re_is_first:
  "exec_body_re s = Some (b, cap, a) \<Longrightarrow> \<not> sublist ''<body'' (b @ ''<bod'')"
proof (induction s arbitrary: b)
  case Nil
  then show ?case by simp
next
  case (Cons c cs)
  show ?case
  proof (cases "match_body_at (c # cs)")
    case (Some ca)
    with Cons.prems have "b = []" by (auto split: prod.splits)
    then show ?thesis by (simp add: sublist_Cons_right)
  next
    case None
    with Cons.prems obtain b' where s: "exec_body_re cs = Some (b', cap, a)" and b: "b = c # b'"
      by auto
    from Cons.IH[OF s] have ih: "\<not> sublist ''<body'' (b' @ ''<bod'')" .
    from exec_body_re_sound[OF s] obtain attrs where
      cs: "cs = b' @ ''<body'' @ attrs @ ''>'' @ a" by blast
    have "\<not> prefix ''<body'' (c # b' @ ''<bod'')"
    proof
      assume p: "prefix ''<body'' (c # b' @ ''<bod'')"
      have e: "c # cs = (c # b' @ ''<bod'') @ (''y'' @ attrs @ ''>'' @ a)"
        by (simp add: cs)
      from p have pp: "prefix ''<body'' (c # cs)" unfolding e by (rule prefix_prefix)
      have e2: "c # cs = (c # b' @ ''<body'' @ attrs) @ (''>'' @ a)"
        by (simp add: cs)
      have "drop 5 ((c # b' @ ''<body'' @ attrs) @ (''>'' @ a))
            = drop 5 (c # b' @ ''<body'' @ attrs) @ (''>'' @ a)"
        by (subst drop_append) simp
      then have "CHR ''>'' \<in> set (drop 5 (c # cs))" unfolding e2 by simp
      with pp have "match_body_at (c # cs) \<noteq> None" by (rule match_body_at_prefix_gt)
      with None show False by simp
    qed
    with ih show ?thesis unfolding b by (simp add: sublist_Cons_right)
  qed
qed

section \<open>The patches\<close>

lemma addScriptToHead_absent: "\<not> sublist ''<head>'' docStr \<Longrightarrow> addScriptToHead docStr c = docStr"
  by (simp add: addScriptToHead_def replace_str_absent)

lemma setBody_absent: "\<not> has_body_tag docStr \<Longrightarrow> setBodyAmpStoryVisible docStr = docStr"
  by (simp add: setBodyAmpStoryVisible_def exec_body_re_None[symmetric])

lemma addScriptToHead_present:
  assumes "sublist ''<head>'' docStr" and "plain_template content"
  shows "\<exists>pre post. docStr = pre @ ''<head>'' @ post \<and> \<not> sublist ''<head>'' (pre @ ''<head'')
           \<and> addScriptToHead docStr content = pre @ ''<head>'' @ content @ post"
proof -
  have p: "plain_template (''<head>'' @ content)"
    using assms(2) by (simp add: plain_template_Cons)
  from replace_str_present[OF _ assms(1), of "''<head>'' @ content"]
  obtain pre post where "docStr = pre @ ''<head>'' @ post"
    "\<not> sublist ''<head>'' (pre @ butlast ''<head>'')"
    "replace_str docStr ''<head>'' (''<head>'' @ content)
       = pre @ getSubstitution [] ''<head>'' pre post (''<head>'' @ content) @ post"
    by auto
  then show ?thesis
    unfolding addScriptToHead_def getSubstitution_plain[OF p] by auto
qed

lemma setBody_present:
  assumes "has_body_tag docStr"
  shows "\<exists>pre attrs post. docStr = pre @ ''<body'' @ attrs @ ''>'' @ post
           \<and> CHR ''>'' \<notin> set attrs \<and> \<not> sublist ''<body'' (pre @ ''<bod'')
           \<and> setBodyAmpStoryVisible docStr
               = pre @ ''<body'' @ attrs @ '' amp-story-visible>'' @ post"
proof -
  from assms have "exec_body_re docStr \<noteq> None" by (simp add: exec_body_re_None)
  then obtain b cap a where s: "exec_body_re docStr = Some (b, cap, a)" by auto
  from exec_body_re_sound[OF s] obtain attrs where
    a: "cap = ''body'' @ attrs" "CHR ''>'' \<notin> set attrs" "docStr = b @ ''<body'' @ attrs @ ''>'' @ a"
    by blast
  have "setBodyAmpStoryVisible docStr = b @ ''<body'' @ attrs @ '' amp-story-visible>'' @ a"
    by (simp add: setBodyAmpStoryVisible_def s getSubstitution_body a(1))
  with a exec_body_re_is_first[OF s] show ?thesis by blast
qed

section \<open>The call-to-action\<close>

lemma last_content_snoc:
  "last_content nm (metas @ [x]) =
     (if getAttribute x ''name'' = Some nm then Some (getAttribute x ''content'')
      else last_content nm metas)"
  by (cases "filter (\<lambda>m. getAttribute m ''name'' = Some nm) metas")
     (simp_all add: last_content_def)

lemma foldl_meta_step:
  "foldl meta_step (t, u) metas =
     ((case last_content ''amp-cta-type'' metas of None \<Rightarrow> t | Some c \<Rightarrow> c),
      (case last_content ''amp-cta-url'' metas of None \<Rightarrow> u | Some c \<Rightarrow> c))"
proof (induction metas rule: rev_induct)
  case Nil
  then show ?case by (simp add: last_content_def)
next
  case (snoc x xs)
  then show ?case by (simp add: last_content_snoc meta_step_def Let_def)
qed

lemma resolveCta_eq:
  "resolveCta D docStr =
     (if match_all docStr = [] then (Some defaultCtaType, Some defaultCtaUrl)
      else
        (case last_content ''amp-cta-type''
                (parseMetas D (join [CHR 0x0A] (match_all docStr))) of
           None \<Rightarrow> Some defaultCtaType
         | Some c \<Rightarrow> c,
         case last_content ''amp-cta-url''
                (parseMetas D (join [CHR 0x0A] (match_all docStr))) of
           None \<Rightarrow> Some defaultCtaUrl
         | Some c \<Rightarrow> c))"
  by (simp add: resolveCta_def Let_def foldl_meta_step)

lemma setMetaCtaLink_href:
  "getAttribute (snd (setMetaCtaLink D docStr link)) ''href''
     = Some (js_string (snd (resolveCta D docStr)))"
  by (simp add: setMetaCtaLink_def getAttribute_def setAttribute_def Let_def
        split: prod.splits sum.splits)

lemma setMetaCtaLink_known:
  "CTA_TYPES D (js_string (fst (resolveCta D docStr))) = Some label \<Longrightarrow> label \<noteq> [] \<Longrightarrow>
     setMetaCtaLink D docStr link =
       (Normal, (setAttribute link ''href'' (js_string (snd (resolveCta D docStr))))
                  \<lparr>textContent := label\<rparr>)"
  by (cases "resolveCta D docStr") (simp add: setMetaCtaLink_def assert_def Let_def)

lemma setMetaCtaLink_unknown:
  "CTA_TYPES D (js_string (fst (resolveCta D docStr))) = None
     \<or> CTA_TYPES D (js_string (fst (resolveCta D docStr))) = Some [] \<Longrightarrow>
     setMetaCtaLink D docStr link =
       (Throw (AssertionError (''Unknown CTA type '' @ js_string (fst (resolveCta D docStr)))),
        setAttribute link ''href'' (js_string (snd (resolveCta D docStr))))"
  by (cases "resolveCta D docStr") (auto simp: setMetaCtaLink_def assert_def Let_def)

section \<open>Runs of the widget\<close>






lemma updateOuter_own_events:
  "\<exists>w' ys. run_task (fst (updateOuter D dirty dirtyInner sc)) w = (Normal, w')
        \<and> events w' = events w @ ys \<and> ctaLink w' = ctaLink w \<and> storyDoc w' = dirty
        \<and> loaded_before_select True ys \<and> story_loaded True ys
        \<and> (\<forall>f. cta_before_ad D f ys \<and> cta_applied f ys = f)
        \<and> (\<forall>d. WriteAd d \<notin> set ys) \<and> (\<forall>d c k. MetaCtaLink d c k \<notin> set ys)"
  by (simp add: updateOuter_def awaitSelect_def writeStory_def querySelector_def
        setStoryDoc_def emit_def)

lemma sync_prefix_updateInner:
  "sync_prefix (updateInner D dirty False) w = (Normal, w, updateInner D dirty False)"
  by (simp add: updateInner_def)

lemma run_with_call_updateOuter:
  "\<exists>w' ys. run_with_call (updateOuter D dirty dirtyInner sc) w
              = (Normal, w', [updateInner D dirtyInner False])
        \<and> events w' = events w @ ys \<and> ctaLink w' = ctaLink w \<and> storyDoc w' = dirty
        \<and> loaded_before_select True ys \<and> story_loaded True ys
        \<and> (\<forall>f. cta_before_ad D f ys \<and> cta_applied f ys = f)
        \<and> (\<forall>d. WriteAd d \<notin> set ys) \<and> (\<forall>d c k. MetaCtaLink d c k \<notin> set ys)"
proof -
  from updateOuter_own_events[of D dirty dirtyInner sc w] obtain w' ys where
    r: "run_task (fst (updateOuter D dirty dirtyInner sc)) w = (Normal, w')"
    and rest: "events w' = events w @ ys" "ctaLink w' = ctaLink w" "storyDoc w' = dirty"
      "loaded_before_select True ys" "story_loaded True ys"
      "\<forall>f. cta_before_ad D f ys \<and> cta_applied f ys = f"
      "\<forall>d. WriteAd d \<notin> set ys" "\<forall>d c k. MetaCtaLink d c k \<notin> set ys"
    by blast
  have s: "snd (updateOuter D dirty dirtyInner sc) = updateInner D dirtyInner False"
    by (simp add: updateOuter_def)
  have n: "updateInner D dirtyInner False \<noteq> []"
    by (simp add: updateInner_def)
  have "run_with_call (updateOuter D dirty dirtyInner sc) w
          = (Normal, w', [updateInner D dirtyInner False])"
    using r s n
    by (cases "updateOuter D dirty dirtyInner sc")
       (auto simp: run_with_call_def sync_prefix_updateInner split: list.splits)
  with rest show ?thesis by blast
qed




lemma run_updateInner:
  "run_task (updateInner D dirty sc) w =
     (case setMetaCtaLink D dirty (ctaLink w) of
        (c, l) \<Rightarrow>
          (c, \<lparr>storyDoc = storyDoc w, ctaLink = l,
                events = events w
                  @ [Resumed StoryIframe,
                     WriteStory (if sc then patchOuter D (storyDoc w) ''page-1''
                                 else storyCssPatch D (storyDoc w)),
                     Resumed StoryIframe, Resumed WhenIframeLoaded,
                     Resumed StoryIframe, Select ''iframe'', Resumed AwaitSelect,
                     Resumed StoryCtaLink, MetaCtaLink dirty c l]
                  @ (case c of
                       Normal \<Rightarrow> [Resumed AdIframe, WriteAd (patch D dirty)]
                     | Throw e \<Rightarrow> [])\<rparr>))"
proof (cases "setMetaCtaLink D dirty (ctaLink w)")
  case (Pair c l)
  then show ?thesis
    by (cases c; cases w)
       (simp_all add: updateInner_def awaitSelect_def writeStory_def querySelector_def
          applyMetaCtaLink_def writeAd_def emit_def)
qed

lemma last_events_updateInner:
  "fst (setMetaCtaLink D dirty (ctaLink w)) = Normal \<Longrightarrow>
     fst (run_task (updateInner D dirty sc) w) = Normal
     \<and> last (events (snd (run_task (updateInner D dirty sc) w))) = WriteAd (patch D dirty)"
  by (cases "setMetaCtaLink D dirty (ctaLink w)") (simp add: run_updateInner)

section \<open>Runs of the build script\<close>

lemma write_bundle_trace:
  "trace (snd (write_bundle T b out st)) = trace st @ [BundleWrite out]"
  by (simp add: write_bundle_def logged_def Let_def split: sum.splits)

lemma promise_all_write_bundle_trace:
  "trace (snd (promise_all_map (write_bundle T b) outs st)) = trace st @ map BundleWrite outs"
  by (induction outs arbitrary: st) (simp_all add: case_prod_beta write_bundle_trace)


lemma build_trace:
  "trace (snd (build T st)) =
     trace st @ [Step ''Building'', RollupCall inputConfig]
     @ (case rollup T inputConfig of
          Inl e \<Rightarrow> []
        | Inr b \<Rightarrow> map BundleWrite outputBundles)"
  by (simp add: build_def step_def withAllBundles_def logged_def Let_def
        promise_all_write_bundle_trace split: sum.splits)

lemma minify_trace:
  "\<exists>es. trace (snd (promise_all_map (minifyBundle T) outs st)) = trace st @ es"
proof (induction outs arbitrary: st)
  case Nil
  then show ?case by simp
next
  case (Cons x xs)
  obtain c st' where m: "minifyBundle T x st = (c, st')" by (cases "minifyBundle T x st")
  then have "\<exists>es. trace st' = trace st @ es"
    by (auto simp: minifyBundle_def logged_def Let_def split: option.splits sum.splits)
  then obtain es where es: "trace st' = trace st @ es" ..
  from Cons.IH[of st'] obtain es' where
    "trace (snd (promise_all_map (minifyBundle T) xs st')) = trace st' @ es'" ..
  with es m show ?case by (auto split: prod.splits)
qed

lemma main_trace:
  "\<exists>es. trace (snd (main T env fs)) = trace (snd (build T \<lparr>files = fs, trace = []\<rparr>)) @ es
        \<and> (Step ''Minifying'' \<in> set es \<longleftrightarrow>
             fst (build T \<lparr>files = fs, trace = []\<rparr>) = Normal \<and> truthy (env ''PROD''))"
proof (cases "build T \<lparr>files = fs, trace = []\<rparr>")
  case (Pair c st)
  show ?thesis
  proof (cases "c = Normal \<and> truthy (env ''PROD'')")
    case False
    with Pair show ?thesis
      by (cases c) (auto simp: main_def)
  next
    case True
    from minify_trace[of T outputBundles "logged (Step ''Minifying'') st"] obtain es where
      "trace (snd (promise_all_map (minifyBundle T) outputBundles (logged (Step ''Minifying'') st)))
         = trace (logged (Step ''Minifying'') st) @ es" ..
    with Pair True show ?thesis
      by (simp add: main_def step_def withAllBundles_def logged_def)
  qed
qed

lemma build_minifying_absent:
  "Step ''Minifying'' \<notin> set (trace (snd (build T \<lparr>files = fs, trace = []\<rparr>)))"
  by (auto simp: build_trace split: sum.splits)

lemma main_in_place:
  assumes "truthy (env ''PROD'')" and "rollup T inputConfig = Inr b"
    and "bundle_write T b \<lparr>file = ''dist/app.js'', format = ''iife'', name = ''ampStoryAdPreview''\<rparr>
           = Inr code"
    and "minify T code minifyConfig = Inr small"
  shows "fst (main T env fs) = Normal"
    and "files (snd (main T env fs)) = fs(''dist/app.js'' \<mapsto> small)"
  using assms
  by (simp_all add: main_def build_def step_def withAllBundles_def outputBundles_def
        write_bundle_def minifyBundle_def logged_def Let_def)

section \<open>The sample inputs\<close>



lemma sample_no_match: "match_all ''<p>ad</p>'' = []"
  by (simp add: match_meta_at_def upper_def)

lemma sample_resolve_default:
  "resolveCta sample_deps ''<p>ad</p>'' = (Some ''LEARN_MORE'', Some ''https://amp.dev'')"
  unfolding resolveCta_eq sample_no_match
  by (simp add: defaultCtaType_def defaultCtaUrl_def)

lemma sample_cta_normal:
  "fst (setMetaCtaLink sample_deps ''<p>ad</p>'' (ctaLink sample_widget)) = Normal"
proof -
  have "CTA_TYPES sample_deps (js_string (fst (resolveCta sample_deps ''<p>ad</p>'')))
          = Some ''Learn More''"
    unfolding sample_resolve_default by (simp add: js_string_def sample_deps_def)
  then show ?thesis by (simp add: setMetaCtaLink_known)
qed

lemma sample_no_head: "\<not> sublist ''<head>'' ''<p>ad</p>''"
  by (simp add: sublist_Cons_right)

lemma sample_no_body: "\<not> has_body_tag ''<p>ad</p>''"
  by simp

section \<open>The claims\<close>



text \<open>
  Claim C2 says that patching a document that lacks the anchor raises and aborts the
  update. It does not: the document \<open><p>ad</p>\<close> has neither \<open><head>\<close> nor a body tag,
  \<open>patch\<close> returns it as it is, and \<open>updateInner\<close> runs to its end and writes it to the ad
  iframe.
\<close>

theorem patch_without_anchor_counterexample:
  "\<not> sublist ''<head>'' ''<p>ad</p>'' \<and> \<not> has_body_tag ''<p>ad</p>''
   \<and> patch sample_deps ''<p>ad</p>'' = ''<p>ad</p>''
   \<and> fst (run_task (updateInner sample_deps ''<p>ad</p>'' False) sample_widget) = Normal
   \<and> last (events (snd (run_task (updateInner sample_deps ''<p>ad</p>'' False) sample_widget)))
       = WriteAd ''<p>ad</p>''"
proof -
  have p: "patch sample_deps ''<p>ad</p>'' = ''<p>ad</p>''"
    by (simp add: patch_def insertHttpsCircumventionPatch_def addScriptToHead_def
          replace_str_def setBodyAmpStoryVisible_def match_body_at_def)
  from last_events_updateInner[OF sample_cta_normal, of False] p sample_no_head sample_no_body
  show ?thesis by simp
qed

text \<open>
  Claim C2, as amended. Where the anchor is missing, a patch returns the document
  unchanged and raises nothing: \<open>addScriptToHead\<close> and the script patches on a document
  without \<open><head>\<close>, \<open>setBodyAmpStoryVisible\<close> on a document without a body tag. The update
  goes on with the unpatched document: when \<open>setMetaCtaLink\<close> completes, \<open>updateInner\<close>
  resolves, and the last thing it does is to write that document to the ad iframe.
\<close>

theorem patch_without_anchor_unchanged:
  "(\<not> sublist ''<head>'' docStr \<longrightarrow>
      addScriptToHead docStr headContent = docStr
      \<and> insertHttpsCircumventionPatch D docStr = docStr
      \<and> storyCssPatch D docStr = docStr
      \<and> storyNavigationPatch D docStr pageId = docStr
      \<and> patchOuter D docStr pageId = docStr)
   \<and> (\<not> has_body_tag docStr \<longrightarrow> setBodyAmpStoryVisible docStr = docStr)
   \<and> (\<not> sublist ''<head>'' docStr \<and> \<not> has_body_tag docStr \<longrightarrow>
        patch D docStr = docStr
        \<and> (fst (setMetaCtaLink D docStr (ctaLink w)) = Normal \<longrightarrow>
             fst (run_task (updateInner D docStr sc) w) = Normal
             \<and> last (events (snd (run_task (updateInner D docStr sc) w))) = WriteAd docStr))"
proof (intro conjI impI)
  assume h: "\<not> sublist ''<head>'' docStr"
  then show "addScriptToHead docStr headContent = docStr" by (rule addScriptToHead_absent)
  from h show "insertHttpsCircumventionPatch D docStr = docStr"
    by (simp add: insertHttpsCircumventionPatch_def addScriptToHead_absent)
  from h show c: "storyCssPatch D docStr = docStr"
    by (simp add: storyCssPatch_def addScriptToHead_absent)
  from h show n: "storyNavigationPatch D docStr pageId = docStr"
    by (simp add: storyNavigationPatch_def addScriptToHead_absent)
  from c n show "patchOuter D docStr pageId = docStr"
    by (simp add: patchOuter_def)
next
  assume "\<not> has_body_tag docStr"
  then show "setBodyAmpStoryVisible docStr = docStr" by (rule setBody_absent)
next
  assume h: "\<not> sublist ''<head>'' docStr \<and> \<not> has_body_tag docStr"
  then show p: "patch D docStr = docStr"
    by (simp add: patch_def insertHttpsCircumventionPatch_def addScriptToHead_absent
          setBody_absent)
  assume "fst (setMetaCtaLink D docStr (ctaLink w)) = Normal"
  from last_events_updateInner[OF this, of sc] p
  show "fst (run_task (updateInner D docStr sc) w) = Normal"
    and "last (events (snd (run_task (updateInner D docStr sc) w))) = WriteAd docStr"
    by simp_all
qed

text \<open>The theorem at a concrete input.\<close>

theorem patch_without_anchor_unchanged_witness:
  "addScriptToHead ''<p>ad</p>'' ''<script></script>'' = ''<p>ad</p>''
   \<and> setBodyAmpStoryVisible ''<p>ad</p>'' = ''<p>ad</p>''
   \<and> patch sample_deps ''<p>ad</p>'' = ''<p>ad</p>''
   \<and> fst (run_task (updateInner sample_deps ''<p>ad</p>'' True) sample_widget) = Normal"
  using patch_without_anchor_unchanged[of "''<p>ad</p>''" "''<script></script>''" sample_deps
          "''page-1''" sample_widget True]
    sample_no_head sample_no_body sample_cta_normal
  by blast





text \<open>
  Claim C5 says that \<open>addScriptToHead\<close> inserts the given content as it is. It does not
  when the content holds a replacement pattern: in the content \<open><script>$$()</script>\<close>
  the two dollar signs are a pattern, and one dollar sign is inserted.
\<close>

theorem addScriptToHead_dollar_counterexample:
  "sublist ''<head>'' ''<head></head>'' \<and> \<not> plain_template ''<script>$$()</script>''
   \<and> addScriptToHead ''<head></head>'' ''<script>$$()</script>''
        = ''<head><script>$()</script></head>''
   \<and> addScriptToHead ''<head></head>'' ''<script>$$()</script>''
        \<noteq> ''<head>'' @ ''<script>$$()</script>'' @ ''</head>''"
  by (simp add: addScriptToHead_def replace_str_def getSubstitution_def expand_at_def)

text \<open>
  Claim C5, as amended. For every document that contains \<open><head>\<close> and every plain content
  (no dollar sign followed by a dollar sign, an ampersand, a backquote or an apostrophe),
  \<open>addScriptToHead\<close> returns the document with the content inserted right after the first
  \<open><head>\<close>, the text before and after it unchanged. For every document with a body tag,
  \<open>setBodyAmpStoryVisible\<close> inserts \<open> amp-story-visible\<close> before the \<open>>\<close> of the first
  such tag and leaves the rest unchanged.
\<close>

theorem patches_insert_at_first_anchor:
  "(sublist ''<head>'' docStr \<and> plain_template headContent \<longrightarrow>
      (\<exists>pre post. docStr = pre @ ''<head>'' @ post
         \<and> \<not> sublist ''<head>'' (pre @ ''<head'')
         \<and> addScriptToHead docStr headContent = pre @ ''<head>'' @ headContent @ post))
   \<and> (has_body_tag docStr \<longrightarrow>
      (\<exists>pre attrs post. docStr = pre @ ''<body'' @ attrs @ ''>'' @ post
         \<and> CHR ''>'' \<notin> set attrs \<and> \<not> sublist ''<body'' (pre @ ''<bod'')
         \<and> setBodyAmpStoryVisible docStr
             = pre @ ''<body'' @ attrs @ '' amp-story-visible>'' @ post))"
  using addScriptToHead_present[of docStr headContent] setBody_present[of docStr]
  by blast

text \<open>The theorem at a concrete input.\<close>

theorem patches_insert_at_first_anchor_witness:
  "(\<exists>pre post. ''<head></head><body a>'' = pre @ ''<head>'' @ post
       \<and> addScriptToHead ''<head></head><body a>'' ''<s>'' = pre @ ''<head>'' @ ''<s>'' @ post)
   \<and> (\<exists>pre attrs post. ''<head></head><body a>'' = pre @ ''<body'' @ attrs @ ''>'' @ post
       \<and> setBodyAmpStoryVisible ''<head></head><body a>''
           = pre @ ''<body'' @ attrs @ '' amp-story-visible>'' @ post)"
proof -
  have h: "sublist ''<head>'' ''<head></head><body a>''"
    by (simp add: sublist_Cons_right)
  have p: "plain_template ''<s>''" by simp
  have b: "has_body_tag ''<head></head><body a>''" by simp
  from patches_insert_at_first_anchor[of "''<head></head><body a>''" "''<s>''"] h p b
  show ?thesis by blast
qed

text \<open>
  Claim C6. When the constructor succeeds, the host element had a non-empty template, and
  the stored story document is that template with the first \<open>{{ adSandbox }}\<close> replaced
  by the space-joined sandbox list, the text before and after it unchanged (the template
  itself when it has no placeholder). The story document is a string throughout: nothing
  in the model parses it.
\<close>

theorem constructor_storyDoc:
  assumes "AmpStoryAdPreview D el link = (Inr (w, chain), el')"
  shows "\<exists>template. data_template el = Some template \<and> template \<noteq> []
           \<and> data_template el' = None
           \<and> (if sublist ''{{ adSandbox }}'' template then
                \<exists>pre post. template = pre @ ''{{ adSandbox }}'' @ post
                  \<and> \<not> sublist ''{{ adSandbox }}'' (pre @ ''{{ adSandbox }'')
                  \<and> storyDoc w = pre @ ''allow-scripts allow-forms allow-same-origin allow-popups allow-popups-to-escape-sandbox allow-top-navigation'' @ post
              else storyDoc w = template)"
proof -
  from assms obtain template where
    t: "data_template el = Some template" "template \<noteq> []" "data_template el' = None"
    and w: "storyDoc w = replace_str template ''{{ adSandbox }}'' defaultIframeSandbox"
    by (auto simp: AmpStoryAdPreview_def getDataTemplate_def assert_def Let_def
          split: option.splits if_splits)
  have "if sublist ''{{ adSandbox }}'' template then
          \<exists>pre post. template = pre @ ''{{ adSandbox }}'' @ post
            \<and> \<not> sublist ''{{ adSandbox }}'' (pre @ ''{{ adSandbox }'')
            \<and> storyDoc w = pre @ defaultIframeSandbox @ post
        else storyDoc w = template"
  proof (cases "sublist ''{{ adSandbox }}'' template")
    case True
    from replace_str_present[OF _ True, of defaultIframeSandbox]
    show ?thesis unfolding w getSubstitution_plain[OF plain_sandbox] using True by auto
  next
    case False
    then show ?thesis unfolding w by (simp add: replace_str_absent)
  qed
  with t show ?thesis unfolding sandbox_string by blast
qed

text \<open>The theorem at a concrete input.\<close>

theorem constructor_storyDoc_witness:
  "\<exists>w el' chain pre post.
      AmpStoryAdPreview sample_deps sample_host sample_link = (Inr (w, chain), el')
      \<and> ''<x a={{ adSandbox }}>'' = pre @ ''{{ adSandbox }}'' @ post
      \<and> storyDoc w = pre @ ''allow-scripts allow-forms allow-same-origin allow-popups allow-popups-to-escape-sandbox allow-top-navigation'' @ post"
proof -
  obtain w el' chain where
    a: "AmpStoryAdPreview sample_deps sample_host sample_link = (Inr (w, chain), el')"
    by (simp add: AmpStoryAdPreview_def getDataTemplate_def assert_def sample_host_def)
  have s: "sublist ''{{ adSandbox }}'' ''<x a={{ adSandbox }}>''"
    by (simp add: sublist_Cons_right)
  have d: "data_template sample_host = Some ''<x a={{ adSandbox }}>''"
    by (simp add: sample_host_def)
  from constructor_storyDoc[OF a] d s a show ?thesis by auto
qed

text \<open>
  Claim C7. \<open>main\<close> always starts with the bundling step. When the bundling step succeeds,
  the minifying step is performed if and only if \<open>PROD\<close> is set, that is, present in the
  environment with a non-empty value. When \<open>PROD\<close> is not set, \<open>main\<close> ends as \<open>build\<close>
  does, the files as the bundler wrote them. When it is set and the tools succeed,
  \<open>dist/app.js\<close> ends up holding the minified form of what the bundler wrote there.
\<close>

theorem main_bundles_and_minifies_iff_prod:
  "(\<exists>es. trace (snd (main T env fs)) = Step ''Building'' # RollupCall inputConfig # es)
   \<and> (fst (build T \<lparr>files = fs, trace = []\<rparr>) = Normal \<longrightarrow>
        (Step ''Minifying'' \<in> set (trace (snd (main T env fs))) \<longleftrightarrow> truthy (env ''PROD'')))
   \<and> (\<not> truthy (env ''PROD'') \<longrightarrow> main T env fs = build T \<lparr>files = fs, trace = []\<rparr>)
   \<and> (truthy (env ''PROD'') \<and> rollup T inputConfig = Inr b
       \<and> bundle_write T b \<lparr>file = ''dist/app.js'', format = ''iife'', name = ''ampStoryAdPreview''\<rparr>
            = Inr code
       \<and> minify T code minifyConfig = Inr small \<longrightarrow>
        fst (main T env fs) = Normal
        \<and> files (snd (main T env fs)) = fs(''dist/app.js'' \<mapsto> small))"
proof (intro conjI impI)
  from main_trace[of T env fs] obtain es where
    es: "trace (snd (main T env fs)) = trace (snd (build T \<lparr>files = fs, trace = []\<rparr>)) @ es"
    and m: "Step ''Minifying'' \<in> set es \<longleftrightarrow>
             fst (build T \<lparr>files = fs, trace = []\<rparr>) = Normal \<and> truthy (env ''PROD'')"
    by blast
  show "\<exists>es. trace (snd (main T env fs)) = Step ''Building'' # RollupCall inputConfig # es"
    unfolding es by (simp add: build_trace)
  show "Step ''Minifying'' \<in> set (trace (snd (main T env fs))) \<longleftrightarrow> truthy (env ''PROD'')"
    if "fst (build T \<lparr>files = fs, trace = []\<rparr>) = Normal"
    unfolding es using m that build_minifying_absent[of T fs] by auto
next
  assume "\<not> truthy (env ''PROD'')"
  then show "main T env fs = build T \<lparr>files = fs, trace = []\<rparr>"
    by (cases "build T \<lparr>files = fs, trace = []\<rparr>")
       (simp add: main_def split: completion.splits)
next
  assume a: "truthy (env ''PROD'') \<and> rollup T inputConfig = Inr b
       \<and> bundle_write T b \<lparr>file = ''dist/app.js'', format = ''iife'', name = ''ampStoryAdPreview''\<rparr>
            = Inr code
       \<and> minify T code minifyConfig = Inr small"
  then show "fst (main T env fs) = Normal"
    and "files (snd (main T env fs)) = fs(''dist/app.js'' \<mapsto> small)"
    by (simp_all add: main_in_place)
qed

text \<open>The theorem at a concrete input.\<close>

theorem main_bundles_and_minifies_iff_prod_witness:
  "Step ''Minifying'' \<in> set (trace (snd (main sample_tools [''PROD'' \<mapsto> ''1''] Map.empty)))
   \<and> files (snd (main sample_tools [''PROD'' \<mapsto> ''1''] Map.empty)) ''dist/app.js'' = Some ''a=1''
   \<and> main sample_tools Map.empty Map.empty = build sample_tools \<lparr>files = Map.empty, trace = []\<rparr>
   \<and> files (snd (main sample_tools Map.empty Map.empty)) ''dist/app.js'' = Some ''var a = 1;''"
proof -
  have b: "build sample_tools \<lparr>files = Map.empty, trace = []\<rparr>
    = (Normal, \<lparr>files = [''dist/app.js'' \<mapsto> ''var a = 1;''],
                trace = [Step ''Building'', RollupCall inputConfig,
                         BundleWrite \<lparr>file = ''dist/app.js'', format = ''iife'',
                                       name = ''ampStoryAdPreview''\<rparr>]\<rparr>)"
    by (simp add: build_def step_def withAllBundles_def outputBundles_def write_bundle_def
          logged_def sample_tools_def)
  have t: "truthy ([''PROD'' \<mapsto> ''1''] ''PROD'')" by (simp add: truthy_def)
  have f: "\<not> truthy (Map.empty ''PROD'')" by (simp add: truthy_def)
  have r: "rollup sample_tools inputConfig = Inr 0"
    "bundle_write sample_tools 0 \<lparr>file = ''dist/app.js'', format = ''iife'', name = ''ampStoryAdPreview''\<rparr>
       = Inr ''var a = 1;''"
    "minify sample_tools ''var a = 1;'' minifyConfig = Inr ''a=1''"
    by (simp_all add: sample_tools_def)
  from main_bundles_and_minifies_iff_prod[of sample_tools "[''PROD'' \<mapsto> ''1'']" Map.empty 0
         "''var a = 1;''" "''a=1''"]
    main_bundles_and_minifies_iff_prod[of sample_tools Map.empty Map.empty 0
         "''var a = 1;''" "''a=1''"]
    t f r b
  show ?thesis by simp
qed



text \<open>
  Claim C9. \<open>updateOuter\<close> does not await the \<open>updateInner\<close> it calls. At the moment its own
  promise resolves, the whole body of that \<open>updateInner\<close> is still suspended: nothing has
  been written to the ad iframe, \<open>setMetaCtaLink\<close> has not run and the link is as it was.
  The write to the ad iframe comes only when the suspended body runs.
\<close>

theorem updateOuter_resolves_before_inner_update:
  "\<exists>w' es. run_with_call (updateOuter D dirty dirtyInner sc) w
               = (Normal, w', [updateInner D dirtyInner False])
      \<and> events w' = events w @ es
      \<and> (\<forall>d. WriteAd d \<notin> set es) \<and> (\<forall>d c l. MetaCtaLink d c l \<notin> set es)
      \<and> ctaLink w' = ctaLink w
      \<and> (fst (setMetaCtaLink D dirtyInner (ctaLink w)) = Normal \<longrightarrow>
           last (events (snd (run_task (updateInner D dirtyInner False) w')))
             = WriteAd (patch D dirtyInner))"
proof -
  from run_with_call_updateOuter[of D dirty dirtyInner sc w] obtain w' es where
    r: "run_with_call (updateOuter D dirty dirtyInner sc) w
          = (Normal, w', [updateInner D dirtyInner False])"
    and e: "events w' = events w @ es" "ctaLink w' = ctaLink w"
      "\<forall>d. WriteAd d \<notin> set es" "\<forall>d c k. MetaCtaLink d c k \<notin> set es"
    by blast
  have "last (events (snd (run_task (updateInner D dirtyInner False) w')))
          = WriteAd (patch D dirtyInner)"
    if "fst (setMetaCtaLink D dirtyInner (ctaLink w)) = Normal"
    using that e(2)
    by (cases "setMetaCtaLink D dirtyInner (ctaLink w)") (simp add: run_updateInner)
  with r e show ?thesis by blast
qed

text \<open>The theorem at a concrete input.\<close>

theorem updateOuter_resolves_before_inner_update_witness:
  "\<exists>w'. run_with_call (updateOuter sample_deps ''<head></head>'' ''<p>ad</p>'' True) sample_widget
           = (Normal, w', [updateInner sample_deps ''<p>ad</p>'' False])
      \<and> ctaLink w' = sample_link
      \<and> last (events (snd (run_task (updateInner sample_deps ''<p>ad</p>'' False) w')))
          = WriteAd (patch sample_deps ''<p>ad</p>'')"
proof -
  have l: "ctaLink sample_widget = sample_link" by (simp add: sample_widget_def)
  have n: "fst (setMetaCtaLink sample_deps ''<p>ad</p>'' (ctaLink sample_widget)) = Normal"
  proof -
    have "match_all ''<p>ad</p>'' = []" by (simp add: match_meta_at_def upper_def)
    then have "resolveCta sample_deps ''<p>ad</p>'' = (Some ''LEARN_MORE'', Some ''https://amp.dev'')"
      unfolding resolveCta_eq by (simp add: defaultCtaType_def defaultCtaUrl_def)
    then have "CTA_TYPES sample_deps (js_string (fst (resolveCta sample_deps ''<p>ad</p>'')))
            = Some ''Learn More''"
      by (simp add: js_string_def sample_deps_def)
    then show ?thesis by (simp add: setMetaCtaLink_known)
  qed
  from updateOuter_resolves_before_inner_update[of sample_deps "''<head></head>''" "''<p>ad</p>''"
         True sample_widget] n l
  show ?thesis by auto
qed

text \<open>
  Claim C10. When \<open>setMetaCtaLink\<close> throws, the link's \<open>href\<close> has already been set to the
  resolved url, while its text content is as before: the state has changed although the
  update aborts (\<open>updateInner\<close> is rejected with the same error, keeps the changed link and
  writes nothing to the ad iframe).
\<close>

theorem setMetaCtaLink_not_atomic:
  assumes "fst (setMetaCtaLink D docStr (ctaLink w)) = Throw e"
  shows "getAttribute (snd (setMetaCtaLink D docStr (ctaLink w))) ''href''
           = Some (js_string (snd (resolveCta D docStr)))
       \<and> textContent (snd (setMetaCtaLink D docStr (ctaLink w))) = textContent (ctaLink w)
       \<and> fst (run_task (updateInner D docStr sc) w) = Throw e
       \<and> ctaLink (snd (run_task (updateInner D docStr sc) w))
           = snd (setMetaCtaLink D docStr (ctaLink w))
       \<and> (\<forall>d. WriteAd d \<notin> set (drop (length (events w))
                                  (events (snd (run_task (updateInner D docStr sc) w)))))"
proof -
  obtain c l where s: "setMetaCtaLink D docStr (ctaLink w) = (c, l)"
    by (cases "setMetaCtaLink D docStr (ctaLink w)")
  with assms have c: "c = Throw e" by simp
  have "textContent l = textContent (ctaLink w)"
    using s c
    by (cases "resolveCta D docStr")
       (auto simp: setMetaCtaLink_def setAttribute_def Let_def split: sum.splits)
  with s c setMetaCtaLink_href[of D docStr "ctaLink w"] show ?thesis
    by (simp add: run_updateInner)
qed

text \<open>The theorem at a concrete input.\<close>

theorem setMetaCtaLink_not_atomic_witness:
  "fst (setMetaCtaLink (sample_deps\<lparr>CTA_TYPES := Map.empty\<rparr>) [] sample_link)
     = Throw (AssertionError ''Unknown CTA type LEARN_MORE'')
   \<and> getAttribute (snd (setMetaCtaLink (sample_deps\<lparr>CTA_TYPES := Map.empty\<rparr>) [] sample_link))
       ''href'' = Some ''https://amp.dev''"
proof -
  have r: "resolveCta (sample_deps\<lparr>CTA_TYPES := Map.empty\<rparr>) []
             = (Some ''LEARN_MORE'', Some ''https://amp.dev'')"
    by (simp add: resolveCta_def defaultCtaType_def defaultCtaUrl_def)
  have t: "fst (setMetaCtaLink (sample_deps\<lparr>CTA_TYPES := Map.empty\<rparr>) [] (ctaLink sample_widget))
             = Throw (AssertionError ''Unknown CTA type LEARN_MORE'')"
    by (simp add: setMetaCtaLink_unknown r js_string_def)
  have l: "ctaLink sample_widget = sample_link" by (simp add: sample_widget_def)
  from setMetaCtaLink_not_atomic[OF t] t show ?thesis
    unfolding r l by (simp add: js_string_def)
qed

end
